theory Spec2Isabelle
  imports Main "HOL-Library.Sublist" "HOL-Library.Char_ord"
begin

section \<open>Data preparation for sentiment analysis: \<^verbatim>\<open>data_preparation.py\<close>\<close>

text \<open>
  The development embeds the text pipeline of \<^verbatim>\<open>data_preparation.py\<close>:
  \<^verbatim>\<open>cleanup_text\<close>, \<^verbatim>\<open>create_vocab\<close>, \<^verbatim>\<open>process_reviews\<close> and the corpus
  construction of \<^verbatim>\<open>process_data\<close>. A Python \<^verbatim>\<open>str\<close> is a \<^typ>\<open>string\<close>: a list of
  characters, each a code point below 256. The tokenizer and the lemmatizer are arguments
  of the Python functions and stay arguments here, as pure total functions.
\<close>

subsection \<open>Errors\<close>

text \<open>torchtext raises \<^verbatim>\<open>RuntimeError\<close> with a message; the message is kept.\<close>

datatype error = RuntimeError string

subsection \<open>\<^verbatim>\<open>cleanup_text\<close>\<close>

text \<open>
  \<^verbatim>\<open>str.lower()\<close>, character by character. Below code point 256 the upper-case letters
  are A-Z and the Latin-1 letters \<^verbatim>\<open>0xC0\<close> to \<^verbatim>\<open>0xDE\<close> without the multiplication sign
  \<^verbatim>\<open>0xD7\<close>; each has its lower-case letter 32 places further.
\<close>

definition lower_char :: "char \<Rightarrow> char" where
  "lower_char c =
     (let n = (of_char c :: nat)
      in if (65 \<le> n \<and> n \<le> 90) \<or> (192 \<le> n \<and> n \<le> 222 \<and> n \<noteq> 215)
         then char_of (n + 32) else c)"

definition lower :: "string \<Rightarrow> string" where
  "lower text = map lower_char text"

text \<open>
  The characters that the class \<^verbatim>\<open>[^a-z.?!:)( \n]\<close> excludes: the ones that
  \<^verbatim>\<open>cleanup_text\<close> keeps.
\<close>

definition allowed_char :: "char \<Rightarrow> bool" where
  "allowed_char c \<longleftrightarrow>
     (CHR ''a'' \<le> c \<and> c \<le> CHR ''z'') \<or> c \<in> set ''.?!:)( '' \<or> c = CHR 0x0A"

text \<open>The class of the pattern \<^verbatim>\<open>\.{2,}\<close>: the literal full stop.\<close>

definition is_dot :: "char \<Rightarrow> bool" where
  "is_dot c \<longleftrightarrow> c = CHR ''.''"

text \<open>
  \<^verbatim>\<open>re.sub(pattern, repl, text)\<close> for a pattern that is one character class repeated
  at least \<open>n\<close> times (\<^verbatim>\<open>[...]+\<close> is \<open>n = 1\<close>, \<^verbatim>\<open>\.{2,}\<close> is \<open>n = 2\<close>). The scan goes left
  to right. At a character of the class the greedy match takes the whole run that starts
  there; if the run has at least \<open>n\<close> characters it is replaced by \<open>repl\<close> and the scan
  goes on behind the run, otherwise the character is copied and the scan moves one
  character on.
\<close>

function re_sub_class :: "(char \<Rightarrow> bool) \<Rightarrow> nat \<Rightarrow> string \<Rightarrow> string \<Rightarrow> string" where
  "re_sub_class cls n repl [] = []"
| "re_sub_class cls n repl (c # cs) =
     (if cls c \<and> n \<le> Suc (length (takeWhile cls cs))
      then repl @ re_sub_class cls n repl (dropWhile cls cs)
      else c # re_sub_class cls n repl cs)"
  by pat_completeness auto
termination
  by (relation "measure (\<lambda>(cls, n, repl, text). length text)")
     (auto simp: length_dropWhile_le less_Suc_eq_le)

text \<open>
  \<^verbatim>\<open>cleanup_text\<close>, statement by statement: the lower-casing, the removal of the
  characters outside the class, and the six substitutions, all six on the pattern
  \<^verbatim>\<open>\.{2,}\<close>, with the replacements \<^verbatim>\<open>. ! ? ) ( :\<close> in the order of the source.
\<close>

definition cleanup_text :: "string \<Rightarrow> string" where
  "cleanup_text text0 =
     (let text = lower text0;
          text = re_sub_class (\<lambda>c. \<not> allowed_char c) 1 '''' text;
          text = re_sub_class is_dot 2 ''.'' text;
          text = re_sub_class is_dot 2 ''!'' text;
          text = re_sub_class is_dot 2 ''?'' text;
          text = re_sub_class is_dot 2 '')'' text;
          text = re_sub_class is_dot 2 ''('' text;
          text = re_sub_class is_dot 2 '':'' text
      in text)"

text \<open>Two neighbouring characters that are both \<open>d\<close>: a run of two or more.\<close>

fun has_double :: "char \<Rightarrow> string \<Rightarrow> bool" where
  "has_double d (a # b # cs) = ((a = d \<and> b = d) \<or> has_double d (b # cs))"
| "has_double d cs = False"

text \<open>
  The simpler normalizer that \<^verbatim>\<open>cleanup_text\<close> is compared with. It is written from the
  description, not from the code: lower-case every character, keep the allowed ones, and
  leave one full stop of every run of full stops. No other punctuation mark is touched.
\<close>

fun collapse_dots :: "string \<Rightarrow> string" where
  "collapse_dots (a # b # cs) =
     (if a = CHR ''.'' \<and> b = CHR ''.'' then collapse_dots (b # cs)
      else a # collapse_dots (b # cs))"
| "collapse_dots cs = cs"

definition normalize_simple :: "string \<Rightarrow> string" where
  "normalize_simple s = collapse_dots (filter allowed_char (map lower_char s))"

subsection \<open>\<^verbatim>\<open>collections.Counter\<close> and \<^verbatim>\<open>torchtext.vocab\<close>\<close>

text \<open>
  A \<^verbatim>\<open>Counter\<close> is a dictionary that keeps the order in which its keys were first
  inserted: an association list. Counting a list inserts a new key with count 1 at the
  end and increments the count of a key that is there.
\<close>

fun counter_add :: "(string \<times> nat) list \<Rightarrow> string \<Rightarrow> (string \<times> nat) list" where
  "counter_add [] k = [(k, 1)]"
| "counter_add ((k', n) # kvs) k =
     (if k' = k then (k', n + 1) # kvs else (k', n) # counter_add kvs k)"

definition Counter :: "string list \<Rightarrow> (string \<times> nat) list" where
  "Counter xs = foldl counter_add [] xs"

text \<open>\<^verbatim>\<open>ordered_dict.pop(token, None)\<close>: the key is removed when it is there.\<close>

definition dict_pop :: "(string \<times> nat) list \<Rightarrow> string \<Rightarrow> (string \<times> nat) list" where
  "dict_pop d token = filter (\<lambda>(k, v). k \<noteq> token) d"

text \<open>
  A torchtext \<^verbatim>\<open>Vocab\<close>: the list of its tokens, a token's index being its position, and
  the default index, which is not set on a new vocabulary.
\<close>

record vocabulary =
  itos :: "string list"
  default_index :: "int option"

text \<open>The constructor refuses a token list with a token that occurs twice.\<close>

definition Vocab :: "string list \<Rightarrow> error + vocabulary" where
  "Vocab tokens =
     (if distinct tokens then Inr \<lparr>itos = tokens, default_index = None\<rparr>
      else Inl (RuntimeError ''Duplicate token found in tokens list''))"

text \<open>
  The factory \<^verbatim>\<open>vocab(ordered_dict, min_freq, specials)\<close>, with \<^verbatim>\<open>special_first\<close> at its
  default \<^verbatim>\<open>True\<close>: the special tokens are taken out of the dictionary, the remaining
  keys with a frequency of at least \<open>min_freq\<close> are collected in the dictionary's order,
  and the special tokens are put in front.
\<close>

definition vocab :: "(string \<times> nat) list \<Rightarrow> nat \<Rightarrow> string list \<Rightarrow> error + vocabulary" where
  "vocab ordered_dict min_freq specials =
     (let ordered_dict = foldl dict_pop ordered_dict specials;
          tokens = map fst (filter (\<lambda>(token, freq). min_freq \<le> freq) ordered_dict);
          tokens = specials @ tokens
      in Vocab tokens)"

definition set_default_index :: "vocabulary \<Rightarrow> int \<Rightarrow> vocabulary" where
  "set_default_index v i = v\<lparr>default_index := Some i\<rparr>"

text \<open>The position of a token in the token list, when it is there.\<close>

fun index_of :: "string \<Rightarrow> string list \<Rightarrow> nat option" where
  "index_of token [] = None"
| "index_of token (x # xs) =
     (if x = token then Some 0 else map_option Suc (index_of token xs))"

text \<open>
  \<^verbatim>\<open>vocabulary[token]\<close>: the token's index, the default index for a token that is not in
  the vocabulary, and an error when there is no default index.
\<close>

definition getitem :: "vocabulary \<Rightarrow> string \<Rightarrow> error + int" where
  "getitem v token =
     (case index_of token (itos v) of
        Some i \<Rightarrow> Inr (int i)
      | None \<Rightarrow>
          (case default_index v of
             Some d \<Rightarrow> Inr d
           | None \<Rightarrow> Inl (RuntimeError ''Token not found and default index is not set'')))"

text \<open>\<^verbatim>\<open>vocabulary(tokens)\<close>: the indices of a list of tokens, in order.\<close>

fun lookup_indices :: "vocabulary \<Rightarrow> string list \<Rightarrow> error + int list" where
  "lookup_indices v [] = Inr []"
| "lookup_indices v (token # tokens) =
     (case getitem v token of
        Inl e \<Rightarrow> Inl e
      | Inr i \<Rightarrow>
          (case lookup_indices v tokens of
             Inl e \<Rightarrow> Inl e
           | Inr ids \<Rightarrow> Inr (i # ids)))"

subsection \<open>\<^verbatim>\<open>create_vocab\<close>\<close>

text \<open>
  The minimum frequency is the literal 10 of the source; the function has no argument
  for it. The special tokens are passed as \<^verbatim>\<open>[pad_token, unk_token]\<close>, and the default
  index is set to 1.
\<close>

definition create_vocab ::
  "string \<Rightarrow> (string \<Rightarrow> string list) \<Rightarrow> (string \<Rightarrow> string) \<Rightarrow> string \<Rightarrow> string
     \<Rightarrow> error + vocabulary" where
  "create_vocab text tokenizer lemmatize unk_token pad_token =
     (let tokenized_text = tokenizer text;
          lemmatized_text = map lemmatize tokenized_text;
          token_freqs = Counter lemmatized_text
      in case vocab token_freqs 10 [pad_token, unk_token] of
           Inl e \<Rightarrow> Inl e
         | Inr vocabulary \<Rightarrow> Inr (set_default_index vocabulary 1))"

subsection \<open>\<^verbatim>\<open>process_reviews\<close>\<close>

text \<open>
  The slice \<^verbatim>\<open>xs[:n]\<close>: the first \<open>n\<close> elements, and for a negative \<open>n\<close> all but the
  last \<open>-n\<close>.
\<close>

definition slice_to :: "'a list \<Rightarrow> int \<Rightarrow> 'a list" where
  "slice_to xs n =
     (if 0 \<le> n then take (nat n) xs else take (nat (int (length xs) + n)) xs)"

definition process_reviews ::
  "string \<Rightarrow> (string \<Rightarrow> string list) \<Rightarrow> (string \<Rightarrow> string) \<Rightarrow> vocabulary \<Rightarrow> int
     \<Rightarrow> error + int list" where
  "process_reviews review tokenizer lemmatize vocabulary max_len =
     (let review_cleaned = cleanup_text review;
          review_tokenized = tokenizer review_cleaned;
          lemmatized_text = map lemmatize review_tokenized
      in case lookup_indices vocabulary lemmatized_text of
           Inl e \<Rightarrow> Inl e
         | Inr review_processed \<Rightarrow>
             if int (length review_processed) < max_len
             then Inr (review_processed @
                    replicate (nat (max_len - int (length review_processed))) 0)
             else if int (length review_processed) > max_len
             then Inr (slice_to review_processed max_len)
             else Inr review_processed)"

subsection \<open>The corpus of \<^verbatim>\<open>process_data\<close>\<close>

text \<open>\<^verbatim>\<open>sep.join(xs)\<close>.\<close>

fun join :: "string \<Rightarrow> string list \<Rightarrow> string" where
  "join sep [] = []"
| "join sep [x] = x"
| "join sep (x # y # ys) = x @ sep @ join sep (y # ys)"

text \<open>
  The two statements that build the corpus, from the review columns of the training and
  of the validation split. The concatenation \<^verbatim>\<open>corpus_data\<close> is computed and not used;
  the corpus joins the training reviews.
\<close>

definition process_data_corpus :: "string list \<Rightarrow> string list \<Rightarrow> string" where
  "process_data_corpus training_reviews validation_reviews =
     (let corpus_data = training_reviews @ validation_reviews;
          corpus = join [CHR 0x0A] training_reviews
      in corpus)"

text \<open>
  The vocabulary of \<^verbatim>\<open>process_data\<close>: the cleaned corpus, with \<^verbatim>\<open><unk>\<close> as the unknown
  token and \<^verbatim>\<open><pad>\<close> as the padding token.
\<close>

definition process_data_vocabulary ::
  "string list \<Rightarrow> string list \<Rightarrow> (string \<Rightarrow> string list) \<Rightarrow> (string \<Rightarrow> string)
     \<Rightarrow> error + vocabulary" where
  "process_data_vocabulary training_reviews validation_reviews tokenizer lemmatize =
     (let corpus = process_data_corpus training_reviews validation_reviews;
          corpus_cleaned = cleanup_text corpus
      in create_vocab corpus_cleaned tokenizer lemmatize ''<unk>'' ''<pad>'')"

subsection \<open>A tokenizer for the examples\<close>

text \<open>
  \<^verbatim>\<open>process_data\<close> passes nltk's \<^verbatim>\<open>word_tokenize\<close> and \<^verbatim>\<open>WordNetLemmatizer\<close>, which are
  not part of the repository. The examples below run with the simplest tokenizer, which
  splits at spaces and newlines as \<^verbatim>\<open>str.split\<close> does, and with the lemmatizer that
  leaves every word as it is. On the words of the examples both agree with nltk.
\<close>

fun split_acc :: "string \<Rightarrow> string \<Rightarrow> string list" where
  "split_acc w [] = (if w = [] then [] else [w])"
| "split_acc w (c # cs) =
     (if c = CHR '' '' \<or> c = CHR 0x0A
      then (if w = [] then [] else [w]) @ split_acc [] cs
      else split_acc (w @ [c]) cs)"

definition split_whitespace :: "string \<Rightarrow> string list" where
  "split_whitespace s = split_acc [] s"

section \<open>The normalizer\<close>

subsection \<open>Substitution on a character class\<close>

lemma re_sub_class_filter:
  "re_sub_class cls (Suc 0) [] s = filter (\<lambda>c. \<not> cls c) s"
proof (induction s rule: length_induct)
  case (1 s)
  show ?case
  proof (cases s)
    case Nil
    then show ?thesis by simp
  next
    case (Cons c cs)
    show ?thesis
    proof (cases "cls c")
      case True
      have "length (dropWhile cls cs) < length s"
        using Cons by (simp add: length_dropWhile_le less_Suc_eq_le)
      with 1 have "re_sub_class cls (Suc 0) [] (dropWhile cls cs) =
          filter (\<lambda>c. \<not> cls c) (dropWhile cls cs)"
        by blast
      moreover have "filter (\<lambda>c. \<not> cls c) (dropWhile cls cs) = filter (\<lambda>c. \<not> cls c) cs"
        by (induction cs) auto
      ultimately show ?thesis using Cons True by simp
    next
      case False
      with 1 Cons show ?thesis by simp
    qed
  qed
qed

subsection \<open>Runs of full stops\<close>

lemma collapse_dots_not_dot:
  "a \<noteq> CHR ''.'' \<Longrightarrow> collapse_dots (a # cs) = a # collapse_dots cs"
  by (cases cs) auto

lemma collapse_dots_dot:
  "collapse_dots (CHR ''.'' # cs) = CHR ''.'' # collapse_dots (dropWhile is_dot cs)"
proof (induction cs)
  case Nil
  show ?case by simp
next
  case (Cons b cs)
  show ?case
  proof (cases "b = CHR ''.''")
    case True
    with Cons show ?thesis by (simp add: is_dot_def)
  next
    case False
    then show ?thesis by (simp add: is_dot_def collapse_dots_not_dot)
  qed
qed

lemma re_sub_dots_dot:
  "re_sub_class is_dot 2 repl (CHR ''.'' # cs) =
     (if cs \<noteq> [] \<and> hd cs = CHR ''.'' then repl else ''.'') @
     re_sub_class is_dot 2 repl (dropWhile is_dot cs)"
  by (cases cs) (auto simp: is_dot_def)

lemma re_sub_dots_eq_collapse:
  "re_sub_class is_dot 2 ''.'' s = collapse_dots s"
proof (induction s rule: length_induct)
  case (1 s)
  show ?case
  proof (cases s)
    case Nil
    then show ?thesis by simp
  next
    case (Cons c cs)
    show ?thesis
    proof (cases "c = CHR ''.''")
      case True
      have "length (dropWhile is_dot cs) < length s"
        using Cons by (simp add: length_dropWhile_le less_Suc_eq_le)
      with 1 have "re_sub_class is_dot 2 ''.'' (dropWhile is_dot cs) = collapse_dots (dropWhile is_dot cs)"
        by blast
      then show ?thesis
        unfolding Cons True re_sub_dots_dot collapse_dots_dot by simp
    next
      case False
      with 1 Cons show ?thesis
        by (simp add: is_dot_def collapse_dots_not_dot)
    qed
  qed
qed

lemma collapse_dots_head:
  "\<exists>r. collapse_dots (b # cs) = b # r"
proof (cases "b = CHR ''.''")
  case True
  then show ?thesis by (simp add: collapse_dots_dot)
next
  case False
  then show ?thesis by (simp add: collapse_dots_not_dot)
qed

lemma collapse_dots_no_double:
  "\<not> has_double (CHR ''.'') (collapse_dots s)"
proof (induction s rule: collapse_dots.induct)
  case (1 a b cs)
  obtain r where r: "collapse_dots (b # cs) = b # r"
    using collapse_dots_head by blast
  show ?case
  proof (cases "a = CHR ''.'' \<and> b = CHR ''.''")
    case True
    with 1 show ?thesis by simp
  next
    case False
    with 1 have "\<not> has_double (CHR ''.'') (b # r)"
      by (simp add: r)
    with False show ?thesis
      by (auto simp: r)
  qed
qed simp_all

lemma has_double_tail:
  "\<not> has_double d (c # cs) \<Longrightarrow> \<not> has_double d cs"
  by (cases cs) auto

lemma re_sub_dots_no_double:
  "\<not> has_double (CHR ''.'') s \<Longrightarrow> re_sub_class is_dot 2 repl s = s"
proof (induction s)
  case Nil
  show ?case by simp
next
  case (Cons c cs)
  from Cons.prems have tl: "\<not> has_double (CHR ''.'') cs"
    by (rule has_double_tail)
  have "takeWhile is_dot cs = []" if "c = CHR ''.''"
    using that Cons.prems by (cases cs) (auto simp: is_dot_def)
  then have "\<not> (is_dot c \<and> 2 \<le> Suc (length (takeWhile is_dot cs)))"
    by (auto simp: is_dot_def)
  then have "re_sub_class is_dot 2 repl (c # cs) = c # re_sub_class is_dot 2 repl cs"
    by (simp only: re_sub_class.simps if_False)
  with Cons.IH [OF tl] show ?case by simp
qed

lemma has_double_sublist:
  "has_double d s \<longleftrightarrow> sublist [d, d] s"
  by (induction d s rule: has_double.induct) (auto simp: sublist_Cons_right)

lemma lower_char_allowed:
  "allowed_char c \<Longrightarrow> lower_char c = c"
  by (auto simp: allowed_char_def lower_char_def Let_def less_eq_char_def)

lemma cleanup_text_simple: "cleanup_text s = normalize_simple s"
proof -
  let ?t = "collapse_dots (filter allowed_char (map lower_char s))"
  have nd: "\<not> has_double (CHR ''.'') ?t"
    by (rule collapse_dots_no_double)
  have "re_sub_class (\<lambda>c. \<not> allowed_char c) 1 [] (lower s) = filter allowed_char (map lower_char s)"
    by (simp add: re_sub_class_filter lower_def)
  then show ?thesis
    by (simp add: cleanup_text_def normalize_simple_def Let_def re_sub_dots_eq_collapse
        re_sub_dots_no_double [OF nd])
qed

lemma collapse_dots_set: "set (collapse_dots s) \<subseteq> set s"
  by (induction s rule: collapse_dots.induct) auto

lemma collapse_dots_id: "\<not> has_double (CHR ''.'') s \<Longrightarrow> collapse_dots s = s"
  using re_sub_dots_no_double [of s "''.''"] by (simp add: re_sub_dots_eq_collapse)

lemma cleanup_text_allowed: "set (cleanup_text s) \<subseteq> Collect allowed_char"
  using collapse_dots_set [of "filter allowed_char (map lower_char s)"]
  by (auto simp: cleanup_text_simple normalize_simple_def)

lemma cleanup_text_no_double: "\<not> has_double (CHR ''.'') (cleanup_text s)"
  by (simp add: cleanup_text_simple normalize_simple_def collapse_dots_no_double)

lemma allowed_char_alphabet:
  "Collect allowed_char =
     {c. CHR ''a'' \<le> c \<and> c \<le> CHR ''z''} \<union> set '' .!():?'' \<union> {CHR 0x0A}"
  by (auto simp: allowed_char_def)

subsection \<open>The claims on \<^verbatim>\<open>cleanup_text\<close>\<close>

text \<open>
  C4. For every input string, every character of the cleaned text is a lower-case
  letter a to z, a space, a newline, or one of the marks \<^verbatim>\<open>. ! ( ) : ?\<close>.
\<close>

theorem cleanup_text_alphabet:
  "set (cleanup_text s) \<subseteq>
     {c. CHR ''a'' \<le> c \<and> c \<le> CHR ''z''} \<union> set '' .!():?'' \<union> {CHR 0x0A}"
  using cleanup_text_allowed [of s] unfolding allowed_char_alphabet .

text \<open>
  C5. Cleaning is idempotent: cleaning a cleaned text gives the cleaned text again.
\<close>

theorem cleanup_text_idempotent:
  "cleanup_text (cleanup_text s) = cleanup_text s"
proof -
  let ?t = "cleanup_text s"
  have a: "\<forall>c \<in> set ?t. allowed_char c"
    using cleanup_text_allowed [of s] by auto
  then have "map lower_char ?t = ?t"
    by (simp add: lower_char_allowed map_idI)
  moreover have "filter allowed_char ?t = ?t"
    using a by simp
  moreover have "\<not> has_double (CHR ''.'') ?t"
    by (rule cleanup_text_no_double)
  ultimately show ?thesis
    by (simp add: cleanup_text_simple [of ?t] normalize_simple_def collapse_dots_id)
qed

text \<open>
  C6. For every input string, the cleaned text has no two full stops next to each other:
  the string of two full stops is not a substring of it, and so no longer run is either.
\<close>

theorem cleanup_text_no_dot_run:
  "\<not> sublist ''..'' (cleanup_text s)"
  using cleanup_text_no_double [of s] by (simp add: has_double_sublist)

text \<open>
  C7. The claim is that the cleaned text has no run of two or more of any one of the marks
  \<^verbatim>\<open>. ! ( ) : ?\<close>, as the docstring of \<^verbatim>\<open>cleanup_text\<close> says. The code collapses runs
  of full stops only: the review \<^verbatim>\<open>Great dress!!! Loved it\<close> keeps its run of three
  exclamation marks.
\<close>

theorem cleanup_text_keeps_exclamation_run:
  "cleanup_text ''Great dress!!! Loved it'' = ''great dress!!! loved it'' \<and>
   sublist ''!!'' (cleanup_text ''Great dress!!! Loved it'')"
proof -
  have e: "cleanup_text ''Great dress!!! Loved it'' = ''great dress!!! loved it''"
    by code_simp
  have "has_double (CHR ''!'') ''great dress!!! loved it''"
    by simp
  then show ?thesis
    unfolding e has_double_sublist by simp
qed

text \<open>
  C10. The five substitutions after the first never match: whatever the replacement, a
  substitution of runs of two or more full stops leaves the result of the first one
  unchanged. So \<^verbatim>\<open>cleanup_text\<close> is the simpler normalizer that lower-cases, keeps the
  allowed characters and collapses runs of full stops to one full stop.
\<close>

theorem cleanup_text_later_passes_noop:
  "re_sub_class is_dot 2 repl (re_sub_class is_dot 2 ''.'' t) = re_sub_class is_dot 2 ''.'' t \<and>
   cleanup_text s = normalize_simple s"
proof -
  have "\<not> has_double (CHR ''.'') (re_sub_class is_dot 2 ''.'' t)"
    by (simp add: re_sub_dots_eq_collapse collapse_dots_no_double)
  then show ?thesis
    by (simp add: re_sub_dots_no_double cleanup_text_simple)
qed

section \<open>The vocabulary builder\<close>

subsection \<open>Counting and the collected tokens\<close>

lemma counter_add_keys: "fst ` set (counter_add d k) = insert k (fst ` set d)"
  by (induction d k rule: counter_add.induct) auto

lemma counter_add_distinct:
  "distinct (map fst d) \<Longrightarrow> distinct (map fst (counter_add d k))"
proof (induction d k rule: counter_add.induct)
  case (1 k)
  show ?case by simp
next
  case (2 k' n kvs k)
  then show ?case
    using counter_add_keys [of kvs k] by (auto simp del: counter_add_keys)
qed

lemma counter_add_map_of:
  "map_of (counter_add d k) =
     (map_of d)(k \<mapsto> (case map_of d k of None \<Rightarrow> 1 | Some n \<Rightarrow> n + 1))"
  by (induction d k rule: counter_add.induct) (auto simp: fun_eq_iff)

lemma foldl_counter_add_distinct:
  "distinct (map fst d) \<Longrightarrow> distinct (map fst (foldl counter_add d xs))"
  by (induction xs arbitrary: d) (simp_all add: counter_add_distinct)

lemma foldl_counter_add_map_of:
  "map_of (foldl counter_add d xs) w =
     (if w \<in> set xs
      then Some (count_list xs w + (case map_of d w of None \<Rightarrow> 0 | Some n \<Rightarrow> n))
      else map_of d w)"
proof (induction xs arbitrary: d)
  case Nil
  show ?case by simp
next
  case (Cons x xs)
  show ?case
    by (simp add: Cons.IH counter_add_map_of split: option.split)
qed

lemma Counter_distinct: "distinct (map fst (Counter xs))"
  by (simp add: Counter_def foldl_counter_add_distinct)

lemma Counter_map_of:
  "map_of (Counter xs) w = (if w \<in> set xs then Some (count_list xs w) else None)"
  by (simp add: Counter_def foldl_counter_add_map_of)

lemma Counter_entry:
  "(w, n) \<in> set (Counter xs) \<longleftrightarrow> w \<in> set xs \<and> n = count_list xs w"
proof -
  have "(w, n) \<in> set (Counter xs) \<longleftrightarrow> map_of (Counter xs) w = Some n"
    using Counter_distinct [of xs] by simp
  then show ?thesis
    by (auto simp: Counter_map_of)
qed

text \<open>The tokens that the factory collects behind the two special tokens.\<close>

lemma admitted_iff:
  "w \<in> set (map fst (filter (\<lambda>(token, freq). m \<le> freq)
        (dict_pop (dict_pop (Counter xs) p) u))) \<longleftrightarrow>
   w \<noteq> p \<and> w \<noteq> u \<and> w \<in> set xs \<and> m \<le> count_list xs w"
  by (auto simp: dict_pop_def Counter_entry image_iff)

lemma admitted_distinct:
  "distinct (map fst (filter (\<lambda>(token, freq). m \<le> freq)
        (dict_pop (dict_pop (Counter xs) p) u)))"
  unfolding dict_pop_def
  by (intro distinct_map_filter) (rule Counter_distinct)

lemma create_vocab_Inr:
  assumes "pad_token \<noteq> unk_token"
  shows "create_vocab text tokenizer lemmatize unk_token pad_token =
     Inr \<lparr>itos = pad_token # unk_token #
             map fst (filter (\<lambda>(token, freq). 10 \<le> freq)
               (dict_pop (dict_pop (Counter (map lemmatize (tokenizer text))) pad_token) unk_token)),
          default_index = Some 1\<rparr>"
proof -
  let ?adm = "map fst (filter (\<lambda>(token, freq). 10 \<le> freq)
      (dict_pop (dict_pop (Counter (map lemmatize (tokenizer text))) pad_token) unk_token))"
  have "pad_token \<notin> set ?adm" "unk_token \<notin> set ?adm"
    unfolding admitted_iff by simp_all
  with assms have "distinct (pad_token # unk_token # ?adm)"
    using admitted_distinct [of 10 "map lemmatize (tokenizer text)" pad_token unk_token]
    by simp
  then show ?thesis
    by (simp add: create_vocab_def vocab_def Vocab_def Let_def set_default_index_def)
qed

lemma create_vocab_Inl:
  "create_vocab text tokenizer lemmatize t t =
     Inl (RuntimeError ''Duplicate token found in tokens list'')"
  by (simp add: create_vocab_def vocab_def Vocab_def Let_def)

lemma index_of_None: "index_of w xs = None \<longleftrightarrow> w \<notin> set xs"
  by (induction xs) auto

lemma create_vocab_default_index:
  "create_vocab text tokenizer lemmatize unk_token pad_token = Inr v \<Longrightarrow>
     default_index v = Some 1"
  by (cases "pad_token = unk_token") (auto simp: create_vocab_Inl create_vocab_Inr)

lemma getitem_absent:
  "w \<notin> set (itos v) \<Longrightarrow> default_index v = Some d \<Longrightarrow> getitem v w = Inr d"
  using index_of_None [of w "itos v"] by (simp add: getitem_def)

lemma getitem_default:
  "default_index v = Some d \<Longrightarrow> \<exists>i. getitem v w = Inr i"
  by (simp add: getitem_def split: option.split)

lemma lookup_indices_default:
  "default_index v = Some d \<Longrightarrow>
     \<exists>ids. lookup_indices v ts = Inr ids \<and> length ids = length ts"
proof (induction ts)
  case Nil
  show ?case by simp
next
  case (Cons t ts)
  from Cons obtain ids where "lookup_indices v ts = Inr ids" "length ids = length ts"
    by blast
  moreover from Cons.prems obtain i where "getitem v t = Inr i"
    using getitem_default by blast
  ultimately show ?case by simp
qed

subsection \<open>The claims on \<^verbatim>\<open>create_vocab\<close>\<close>

text \<open>
  C2. The threshold of \<^verbatim>\<open>create_vocab\<close> is 10. For every corpus and every lemma other
  than the two special tokens: a lemma in the built vocabulary occurs at least 10 times in
  the lemmatized corpus, and a lemma that occurs fewer than 10 times is not in the
  vocabulary and its lookup returns the unknown id 1.
\<close>

theorem create_vocab_min_freq:
  assumes "create_vocab text tokenizer lemmatize unk_token pad_token = Inr v"
    and "w \<noteq> pad_token" and "w \<noteq> unk_token"
  shows "(w \<in> set (itos v) \<longrightarrow> 10 \<le> count_list (map lemmatize (tokenizer text)) w) \<and>
     (count_list (map lemmatize (tokenizer text)) w < 10 \<longrightarrow>
        w \<notin> set (itos v) \<and> getitem v w = Inr 1)"
proof -
  have ne: "pad_token \<noteq> unk_token"
    using assms(1) by (auto simp: create_vocab_Inl)
  note v = assms(1) [unfolded create_vocab_Inr [OF ne], simplified]
  have d: "default_index v = Some 1"
    using v by auto
  have m: "w \<in> set (itos v) \<longleftrightarrow>
      w \<in> set (map lemmatize (tokenizer text)) \<and> 10 \<le> count_list (map lemmatize (tokenizer text)) w"
    using assms(2,3) admitted_iff [of w 10 "map lemmatize (tokenizer text)" pad_token unk_token]
    unfolding v [symmetric] by simp
  show ?thesis
    using m getitem_absent [OF _ d, of w] by auto
qed

text \<open>
  In a corpus of ten \<^verbatim>\<open>good\<close> and one \<^verbatim>\<open>bad\<close>, the lemma \<^verbatim>\<open>bad\<close> is left out and is
  looked up as 1, and the lemma \<^verbatim>\<open>good\<close> is in the vocabulary.
\<close>

theorem create_vocab_min_freq_witness:
  "create_vocab ''good good good good good good good good good good bad'' split_whitespace id
     ''<unk>'' ''<pad>'' = Inr \<lparr>itos = [''<pad>'', ''<unk>'', ''good''], default_index = Some 1\<rparr> \<and>
   ''bad'' \<noteq> ''<pad>'' \<and> ''bad'' \<noteq> ''<unk>'' \<and>
   count_list (map id (split_whitespace ''good good good good good good good good good good bad''))
     ''bad'' < 10 \<and>
   ''bad'' \<notin> set (itos \<lparr>itos = [''<pad>'', ''<unk>'', ''good''], default_index = Some 1\<rparr>) \<and>
   getitem \<lparr>itos = [''<pad>'', ''<unk>'', ''good''], default_index = Some 1\<rparr> ''bad'' = Inr 1 \<and>
   ''good'' \<noteq> ''<pad>'' \<and> ''good'' \<noteq> ''<unk>'' \<and>
   ''good'' \<in> set (itos \<lparr>itos = [''<pad>'', ''<unk>'', ''good''], default_index = Some 1\<rparr>) \<and>
   10 \<le> count_list (map id (split_whitespace ''good good good good good good good good good good bad''))
     ''good''"
proof -
  let ?text = "''good good good good good good good good good good bad''"
  let ?v = "\<lparr>itos = [''<pad>'', ''<unk>'', ''good''], default_index = Some 1\<rparr>"
  have v: "create_vocab ?text split_whitespace id ''<unk>'' ''<pad>'' = Inr ?v"
    by code_simp
  have b: "''bad'' \<noteq> ''<pad>''" "''bad'' \<noteq> ''<unk>''"
    by simp_all
  have g: "''good'' \<noteq> ''<pad>''" "''good'' \<noteq> ''<unk>''"
    by simp_all
  have c: "count_list (map id (split_whitespace ?text)) ''bad'' < 10"
    by code_simp
  have i: "''good'' \<in> set (itos ?v)"
    by simp
  show ?thesis
    using create_vocab_min_freq [OF v b] create_vocab_min_freq [OF v g] v c i by simp
qed

text \<open>
  Without the exception for the special tokens the claim fails: a lemma that is the
  padding token is in the vocabulary whatever its frequency, and is looked up as 0. Here
  the padding token is \<^verbatim>\<open>pad\<close>, the unknown token \<^verbatim>\<open>unk\<close>, and the corpus is the one
  word \<^verbatim>\<open>pad\<close>.
\<close>

theorem create_vocab_min_freq_counterexample:
  "count_list (map id (split_whitespace ''pad'')) ''pad'' < 10 \<and>
   create_vocab ''pad'' split_whitespace id ''unk'' ''pad'' =
     Inr \<lparr>itos = [''pad'', ''unk''], default_index = Some 1\<rparr> \<and>
   ''pad'' \<in> set (itos \<lparr>itos = [''pad'', ''unk''], default_index = Some 1\<rparr>) \<and>
   getitem \<lparr>itos = [''pad'', ''unk''], default_index = Some 1\<rparr> ''pad'' = Inr 0"
proof -
  have "count_list (map id (split_whitespace ''pad'')) ''pad'' < 10"
    by code_simp
  moreover have "create_vocab ''pad'' split_whitespace id ''unk'' ''pad'' =
      Inr \<lparr>itos = [''pad'', ''unk''], default_index = Some 1\<rparr>"
    by code_simp
  moreover have "getitem \<lparr>itos = [''pad'', ''unk''], default_index = Some 1\<rparr> ''pad'' = Inr 0"
    by code_simp
  ultimately show ?thesis by simp
qed

text \<open>
  C3. For every corpus \<^verbatim>\<open>create_vocab\<close> returns a vocabulary, given two different special
  tokens. The padding token has the id 0 and the unknown token the id 1. When no lemma
  reaches the threshold, and so when the corpus has no token at all, the vocabulary
  consists of the two special tokens and nothing else.
\<close>

theorem create_vocab_specials:
  assumes "pad_token \<noteq> unk_token"
  shows "\<exists>v. create_vocab text tokenizer lemmatize unk_token pad_token = Inr v \<and>
     take 2 (itos v) = [pad_token, unk_token] \<and>
     getitem v pad_token = Inr 0 \<and> getitem v unk_token = Inr 1 \<and>
     ((\<forall>w. count_list (map lemmatize (tokenizer text)) w < 10) \<longrightarrow>
        itos v = [pad_token, unk_token]) \<and>
     (tokenizer text = [] \<longrightarrow> itos v = [pad_token, unk_token])"
proof -
  let ?adm = "map fst (filter (\<lambda>(token, freq). 10 \<le> freq)
      (dict_pop (dict_pop (Counter (map lemmatize (tokenizer text))) pad_token) unk_token))"
  let ?v = "\<lparr>itos = pad_token # unk_token # ?adm, default_index = Some 1\<rparr>"
  have v: "create_vocab text tokenizer lemmatize unk_token pad_token = Inr ?v"
    by (rule create_vocab_Inr [OF assms])
  have e: "?adm = []" if "\<forall>w. count_list (map lemmatize (tokenizer text)) w < 10"
  proof -
    have "set ?adm = {}"
      unfolding set_eq_iff admitted_iff using that by (auto simp: not_le)
    then show ?thesis by (simp only: set_empty)
  qed
  have "getitem ?v pad_token = Inr 0"
    by (simp add: getitem_def)
  moreover have "getitem ?v unk_token = Inr 1"
    using assms by (simp add: getitem_def)
  moreover have "take 2 (itos ?v) = [pad_token, unk_token]"
    by (simp add: numeral_2_eq_2)
  moreover have "(\<forall>w. count_list (map lemmatize (tokenizer text)) w < 10) \<longrightarrow>
      itos ?v = [pad_token, unk_token]"
    using e by simp
  moreover have "tokenizer text = [] \<longrightarrow> itos ?v = [pad_token, unk_token]"
  proof
    assume "tokenizer text = []"
    then have "\<forall>w. count_list (map lemmatize (tokenizer text)) w < 10"
      by simp
    from e [OF this] show "itos ?v = [pad_token, unk_token]"
      by simp
  qed
  ultimately show ?thesis
    using v by blast
qed

text \<open>The empty corpus, with the special tokens of \<^verbatim>\<open>process_data\<close>.\<close>

theorem create_vocab_specials_witness:
  "''<pad>'' \<noteq> ''<unk>'' \<and> split_whitespace '''' = [] \<and>
   (\<exists>v. create_vocab '''' split_whitespace id ''<unk>'' ''<pad>'' = Inr v \<and>
      take 2 (itos v) = [''<pad>'', ''<unk>''] \<and>
      getitem v ''<pad>'' = Inr 0 \<and> getitem v ''<unk>'' = Inr 1 \<and>
      itos v = [''<pad>'', ''<unk>''])"
proof -
  have h: "''<pad>'' \<noteq> ''<unk>''" by simp
  have e: "split_whitespace '''' = []" by code_simp
  show ?thesis
    using create_vocab_specials [OF h, of "''''" split_whitespace id] h e by auto
qed

lemma getitem_not_pad:
  assumes "w \<noteq> pad_token" and "w = unk_token \<or> w \<notin> set rest"
  shows "getitem \<lparr>itos = pad_token # unk_token # rest, default_index = Some 1\<rparr> w = Inr 1"
proof (cases "w = unk_token")
  case True
  with assms(1) show ?thesis by (simp add: getitem_def)
next
  case False
  with assms have "w \<notin> set (pad_token # unk_token # rest)" by simp
  then have "index_of w (pad_token # unk_token # rest) = None"
    using index_of_None [of w "pad_token # unk_token # rest"] by blast
  then show ?thesis by (simp add: getitem_def)
qed

text \<open>
  C8. \<^verbatim>\<open>create_vocab\<close> has no argument for the minimum frequency; the threshold is the
  constant 10: for every corpus, a lemma other than the two special tokens is in the built
  vocabulary exactly when it occurs at least 10 times. On a corpus whose lemmas are
  \<^verbatim>\<open>great dress great fit\<close> no lemma reaches the threshold: the vocabulary consists of
  the padding token at 0 and the unknown token at 1, and, the padding token being none of
  the three words, \<^verbatim>\<open>great\<close>, \<^verbatim>\<open>dress\<close> and \<^verbatim>\<open>fit\<close> are looked up as the unknown
  id 1.
\<close>

theorem create_vocab_fixed_threshold:
  assumes "pad_token \<noteq> unk_token"
  shows "\<exists>v. create_vocab text tokenizer lemmatize unk_token pad_token = Inr v \<and>
     (\<forall>w. w \<noteq> pad_token \<and> w \<noteq> unk_token \<longrightarrow>
        (w \<in> set (itos v) \<longleftrightarrow> 10 \<le> count_list (map lemmatize (tokenizer text)) w)) \<and>
     (map lemmatize (tokenizer text) = [''great'', ''dress'', ''great'', ''fit''] \<longrightarrow>
        itos v = [pad_token, unk_token] \<and>
        (pad_token \<notin> {''great'', ''dress'', ''fit''} \<longrightarrow>
           getitem v ''great'' = Inr 1 \<and> getitem v ''dress'' = Inr 1 \<and>
           getitem v ''fit'' = Inr 1))"
proof -
  let ?xs = "map lemmatize (tokenizer text)"
  let ?adm = "map fst (filter (\<lambda>(token, freq). 10 \<le> freq)
      (dict_pop (dict_pop (Counter ?xs) pad_token) unk_token))"
  let ?v = "\<lparr>itos = pad_token # unk_token # ?adm, default_index = Some 1\<rparr>"
  have v: "create_vocab text tokenizer lemmatize unk_token pad_token = Inr ?v"
    by (rule create_vocab_Inr [OF assms])
  have thr: "w \<in> set (itos ?v) \<longleftrightarrow> 10 \<le> count_list ?xs w"
    if "w \<noteq> pad_token \<and> w \<noteq> unk_token" for w
  proof -
    have "10 \<le> count_list ?xs w \<Longrightarrow> w \<in> set ?xs"
      using count_notin [of w ?xs] by (cases "w \<in> set ?xs") simp_all
    with that show ?thesis
      using admitted_iff [of w 10 ?xs pad_token unk_token] by auto
  qed
  have ex: "itos ?v = [pad_token, unk_token] \<and>
      (pad_token \<notin> {''great'', ''dress'', ''fit''} \<longrightarrow>
         getitem ?v ''great'' = Inr 1 \<and> getitem ?v ''dress'' = Inr 1 \<and>
         getitem ?v ''fit'' = Inr 1)"
    if xs: "?xs = [''great'', ''dress'', ''great'', ''fit'']"
  proof -
    have "set ?adm = {}"
      unfolding set_eq_iff admitted_iff xs by auto
    then have e: "?adm = []"
      by (simp only: set_empty)
    have "getitem ?v w = Inr 1" if "w \<noteq> pad_token" for w
      using that unfolding e by (intro getitem_not_pad) simp_all
    then show ?thesis
      using e by auto
  qed
  show ?thesis
    using v thr ex by blast
qed

text \<open>
  The example corpus with the special tokens of \<^verbatim>\<open>process_data\<close>, and a corpus of ten
  \<^verbatim>\<open>good\<close> and nine \<^verbatim>\<open>bad\<close>: ten occurrences are enough, nine are not.
\<close>

theorem create_vocab_fixed_threshold_witness:
  "''<pad>'' \<noteq> ''<unk>'' \<and>
   map id (split_whitespace ''great dress great fit'') = [''great'', ''dress'', ''great'', ''fit''] \<and>
   ''<pad>'' \<notin> {''great'', ''dress'', ''fit''} \<and>
   (\<exists>v. create_vocab ''great dress great fit'' split_whitespace id ''<unk>'' ''<pad>'' = Inr v \<and>
      itos v = [''<pad>'', ''<unk>''] \<and>
      getitem v ''great'' = Inr 1 \<and> getitem v ''dress'' = Inr 1 \<and> getitem v ''fit'' = Inr 1) \<and>
   ''good'' \<noteq> ''<pad>'' \<and> ''good'' \<noteq> ''<unk>'' \<and> ''bad'' \<noteq> ''<pad>'' \<and> ''bad'' \<noteq> ''<unk>'' \<and>
   count_list (map id (split_whitespace
     ''good good good good good good good good good good bad bad bad bad bad bad bad bad bad''))
     ''good'' = 10 \<and>
   count_list (map id (split_whitespace
     ''good good good good good good good good good good bad bad bad bad bad bad bad bad bad''))
     ''bad'' = 9 \<and>
   (\<exists>v. create_vocab
      ''good good good good good good good good good good bad bad bad bad bad bad bad bad bad''
      split_whitespace id ''<unk>'' ''<pad>'' = Inr v \<and>
      ''good'' \<in> set (itos v) \<and> ''bad'' \<notin> set (itos v))"
proof -
  let ?t = "''good good good good good good good good good good bad bad bad bad bad bad bad bad bad''"
  have h: "''<pad>'' \<noteq> ''<unk>''" by simp
  have g: "map id (split_whitespace ''great dress great fit'') =
      [''great'', ''dress'', ''great'', ''fit'']"
    by code_simp
  have p: "''<pad>'' \<notin> {''great'', ''dress'', ''fit''}" by simp
  have n: "''good'' \<noteq> ''<pad>''" "''good'' \<noteq> ''<unk>''" "''bad'' \<noteq> ''<pad>''" "''bad'' \<noteq> ''<unk>''"
    by simp_all
  have c10: "count_list (map id (split_whitespace ?t)) ''good'' = 10"
    by code_simp
  have c9: "count_list (map id (split_whitespace ?t)) ''bad'' = 9"
    by code_simp
  have a: "\<exists>v. create_vocab ''great dress great fit'' split_whitespace id ''<unk>'' ''<pad>'' = Inr v \<and>
      itos v = [''<pad>'', ''<unk>''] \<and>
      getitem v ''great'' = Inr 1 \<and> getitem v ''dress'' = Inr 1 \<and> getitem v ''fit'' = Inr 1"
    using create_vocab_fixed_threshold [OF h, of "''great dress great fit''" split_whitespace id]
      g p by blast
  have b: "\<exists>v. create_vocab ?t split_whitespace id ''<unk>'' ''<pad>'' = Inr v \<and>
      ''good'' \<in> set (itos v) \<and> ''bad'' \<notin> set (itos v)"
  proof -
    obtain v where v: "create_vocab ?t split_whitespace id ''<unk>'' ''<pad>'' = Inr v"
      and t: "\<forall>w. w \<noteq> ''<pad>'' \<and> w \<noteq> ''<unk>'' \<longrightarrow>
        (w \<in> set (itos v) \<longleftrightarrow> 10 \<le> count_list (map id (split_whitespace ?t)) w)"
      using create_vocab_fixed_threshold [OF h, of ?t split_whitespace id] by blast
    from t n c10 have "''good'' \<in> set (itos v)" by simp
    moreover from t n c9 have "''bad'' \<notin> set (itos v)" by simp
    ultimately show ?thesis using v by blast
  qed
  show ?thesis
    using h g p n c10 c9 a b by (intro conjI)
qed

text \<open>
  The claim itself, that the vocabulary of this corpus admits the lemmas \<^verbatim>\<open>great\<close>,
  \<^verbatim>\<open>dress\<close> and \<^verbatim>\<open>fit\<close> with ids from 2 on, fails: none of them is admitted, and
  \<^verbatim>\<open>great\<close> is looked up as the unknown id 1.
\<close>

theorem create_vocab_example_counterexample:
  "create_vocab ''great dress great fit'' split_whitespace id ''<unk>'' ''<pad>'' =
     Inr \<lparr>itos = [''<pad>'', ''<unk>''], default_index = Some 1\<rparr> \<and>
   set (itos \<lparr>itos = [''<pad>'', ''<unk>''], default_index = Some 1\<rparr>) - {''<pad>'', ''<unk>''}
     \<noteq> {''great'', ''dress'', ''fit''} \<and>
   getitem \<lparr>itos = [''<pad>'', ''<unk>''], default_index = Some 1\<rparr> ''great'' = Inr 1"
proof -
  have "create_vocab ''great dress great fit'' split_whitespace id ''<unk>'' ''<pad>'' =
      Inr \<lparr>itos = [''<pad>'', ''<unk>''], default_index = Some 1\<rparr>"
    by code_simp
  moreover have "getitem \<lparr>itos = [''<pad>'', ''<unk>''], default_index = Some 1\<rparr> ''great'' = Inr 1"
    by code_simp
  ultimately show ?thesis by auto
qed

section \<open>The review encoder\<close>

text \<open>
  C1. For every review, and every \<open>max_len\<close> that is a length (not negative), the encoder
  returns a list of exactly \<open>max_len\<close> ids. With \<open>ids\<close> the result of cleaning,
  tokenizing, lemmatizing and looking up the review: a shorter \<open>ids\<close> is padded on the
  right with the id 0, a longer one is cut to its first \<open>max_len\<close> ids, and one of that
  length is returned as it is. The vocabulary has a default index, as every vocabulary
  of \<^verbatim>\<open>create_vocab\<close> has, so the lookup cannot fail.
\<close>

theorem process_reviews_length:
  assumes "default_index vocabulary = Some d" and "0 \<le> max_len"
  shows "\<exists>ids out.
     lookup_indices vocabulary (map lemmatize (tokenizer (cleanup_text review))) = Inr ids \<and>
     process_reviews review tokenizer lemmatize vocabulary max_len = Inr out \<and>
     int (length out) = max_len \<and>
     out = (if length ids < nat max_len then ids @ replicate (nat max_len - length ids) 0
            else if nat max_len < length ids then take (nat max_len) ids
            else ids)"
proof -
  obtain ids where ids:
    "lookup_indices vocabulary (map lemmatize (tokenizer (cleanup_text review))) = Inr ids"
    using lookup_indices_default [OF assms(1)] by blast
  show ?thesis
  proof (cases "int (length ids) < max_len")
    case True
    then have "nat (max_len - int (length ids)) = nat max_len - length ids"
      by simp
    with True ids assms(2) show ?thesis
      by (simp add: process_reviews_def Let_def)
  next
    case False
    with ids assms(2) show ?thesis
      by (auto simp: process_reviews_def Let_def slice_to_def)
  qed
qed

text \<open>
  The review \<^verbatim>\<open>Great dress!!! Loved it\<close> has four tokens: with \<open>max_len = 5\<close> one pad id
  is appended, with \<open>max_len = 3\<close> the last id is cut off.
\<close>

theorem process_reviews_length_witness:
  "default_index \<lparr>itos = [''<pad>'', ''<unk>'', ''great'', ''dress''], default_index = Some 1\<rparr> = Some 1 \<and>
   (0::int) \<le> 5 \<and>
   process_reviews ''Great dress!!! Loved it'' split_whitespace id
     \<lparr>itos = [''<pad>'', ''<unk>'', ''great'', ''dress''], default_index = Some 1\<rparr> 5 = Inr [2, 1, 1, 1, 0] \<and>
   (0::int) \<le> 3 \<and>
   process_reviews ''Great dress!!! Loved it'' split_whitespace id
     \<lparr>itos = [''<pad>'', ''<unk>'', ''great'', ''dress''], default_index = Some 1\<rparr> 3 = Inr [2, 1, 1]"
proof -
  let ?v = "\<lparr>itos = [''<pad>'', ''<unk>'', ''great'', ''dress''], default_index = Some 1\<rparr>"
  have d: "default_index ?v = Some 1" by simp
  have ids: "lookup_indices ?v (map id (split_whitespace (cleanup_text ''Great dress!!! Loved it'')))
      = Inr [2, 1, 1, 1]"
    by code_simp
  have "process_reviews ''Great dress!!! Loved it'' split_whitespace id ?v 5 = Inr [2, 1, 1, 1, 0]"
    using process_reviews_length [OF d, of 5 id split_whitespace "''Great dress!!! Loved it''"]
    unfolding ids by (simp add: numeral_eq_Suc)
  moreover
  have "process_reviews ''Great dress!!! Loved it'' split_whitespace id ?v 3 = Inr [2, 1, 1]"
    using process_reviews_length [OF d, of 3 id split_whitespace "''Great dress!!! Loved it''"]
    unfolding ids by (simp add: numeral_eq_Suc)
  ultimately show ?thesis by simp
qed

section \<open>The corpus\<close>

text \<open>
  C9. The claim is that the corpus of the vocabulary joins the reviews of the training
  and of the validation split, as the comment in \<^verbatim>\<open>process_data\<close> says. The code joins
  the training reviews only: with one training review \<^verbatim>\<open>good fit\<close> and one validation
  review \<^verbatim>\<open>bad fit\<close> the corpus is \<^verbatim>\<open>good fit\<close>, not the two reviews joined by a
  newline, and the vocabulary is the one built without the validation split.
\<close>

theorem process_data_corpus_training_only:
  "process_data_corpus [''good fit''] [''bad fit''] = ''good fit'' \<and>
   join [CHR 0x0A] ([''good fit''] @ [''bad fit'']) = ''good fit\<newline>bad fit'' \<and>
   process_data_vocabulary [''good fit''] [''bad fit''] =
     process_data_vocabulary [''good fit''] []"
  by (simp add: process_data_corpus_def process_data_vocabulary_def fun_eq_iff)

end
